theory Spec2Isabelle
  imports Complex_Main "HOL-Library.AList"
begin

section \<open>Image optimizer (imagen\_optimized.py): data model\<close>

text \<open>
  The program walks a directory, re-encodes every supported image and keeps running
  totals. The model keeps the source's names. Python exceptions are values of
  \<open>error\<close>; everything the program mutates (the file system, the \<open>stats\<close>
  dictionary, standard output) is a field of \<open>state\<close>, passed in and returned.
  The Pillow library is a parameter of the model (\<open>codec\<close>): every call into it may
  raise.
\<close>

datatype error =
    FileNotFoundError
  | IsADirectoryError
  | NotADirectoryError
  | FileExistsError
  | ValueError
  | ZeroDivisionError
  | CodecError string

type_synonym bytes = string

subsection \<open>Paths (pathlib.Path, as the list of its components)\<close>

text \<open>
  \<open>Path('.')\<close> is the empty list; the last component is the name. Paths are compared
  component by component, as \<open>pathlib\<close> does.
\<close>

type_synonym path = "string list"

definition lower_char :: "char \<Rightarrow> char" where
  "lower_char c =
     (let n = (of_char c :: nat) in if 65 \<le> n \<and> n \<le> 90 then char_of (n + 32) else c)"

definition lower :: "string \<Rightarrow> string" where
  "lower s = map lower_char s"

definition path_name :: "path \<Rightarrow> string" where
  "path_name p = (if p = [] then [] else last p)"

text \<open>
  \<open>PurePath.suffix\<close>: with \<open>i = name.rfind('.')\<close>, the suffix is \<open>name[i:]\<close> when
  \<open>0 < i < len(name) - 1\<close> and the empty string otherwise.
\<close>

definition suffix_of_name :: "string \<Rightarrow> string" where
  "suffix_of_name n =
     (let r = takeWhile (\<lambda>c. c \<noteq> CHR ''.'') (rev n) in
      if length r = length n then []
      else (let i = length n - length r - 1 in
            if 0 < i \<and> i < length n - 1 then drop i n else []))"

definition path_suffix :: "path \<Rightarrow> string" where
  "path_suffix p = suffix_of_name (path_name p)"

text \<open>
  \<open>PurePath.with_suffix\<close>: raises \<open>ValueError\<close> on an empty name; otherwise the old
  suffix (if any) is cut off the name and the new one appended. The two suffixes the
  program passes (\<open>'.backup' + suffix\<close> and \<open>'.jpg'\<close>) are always well formed.
\<close>

definition with_suffix :: "path \<Rightarrow> string \<Rightarrow> error + path" where
  "with_suffix p s =
     (if path_name p = [] then Inl ValueError
      else (let old = path_suffix p;
                nm = (if old = [] then path_name p @ s
                      else take (length (path_name p) - length old) (path_name p) @ s)
            in Inr (butlast p @ [nm])))"

definition parent :: "path \<Rightarrow> path" where
  "parent p = butlast p"

definition is_under :: "path \<Rightarrow> path \<Rightarrow> bool" where
  "is_under d p = (take (length d) p = d)"

definition relative_to :: "path \<Rightarrow> path \<Rightarrow> error + path" where
  "relative_to p d = (if is_under d p then Inr (drop (length d) p) else Inl ValueError)"

subsection \<open>The file system\<close>

datatype node = File bytes | Dir

type_synonym filesystem = "(path \<times> node) list"

definition path_exists :: "filesystem \<Rightarrow> path \<Rightarrow> bool" where
  "path_exists f p = (p = [] \<or> map_of f p \<noteq> None)"

definition is_file :: "filesystem \<Rightarrow> path \<Rightarrow> bool" where
  "is_file f p = (case map_of f p of Some (File c) \<Rightarrow> True | _ \<Rightarrow> False)"

definition is_dir :: "filesystem \<Rightarrow> path \<Rightarrow> bool" where
  "is_dir f p = (p = [] \<or> map_of f p = Some Dir)"

definition dir_size :: nat where
  "dir_size = 4096"

definition getsize :: "filesystem \<Rightarrow> path \<Rightarrow> error + int" where
  "getsize f p =
     (case map_of f p of
        None \<Rightarrow> (if p = [] then Inr (int dir_size) else Inl FileNotFoundError)
      | Some (File c) \<Rightarrow> Inr (int (length c))
      | Some Dir \<Rightarrow> Inr (int dir_size))"

definition read_file :: "filesystem \<Rightarrow> path \<Rightarrow> error + bytes" where
  "read_file f p =
     (case map_of f p of
        None \<Rightarrow> (if p = [] then Inl IsADirectoryError else Inl FileNotFoundError)
      | Some (File c) \<Rightarrow> Inr c
      | Some Dir \<Rightarrow> Inl IsADirectoryError)"

definition write_file :: "filesystem \<Rightarrow> path \<Rightarrow> bytes \<Rightarrow> error + filesystem" where
  "write_file f p c =
     (if is_dir f p then Inl IsADirectoryError
      else if \<not> is_dir f (parent p) then Inl FileNotFoundError
      else Inr (AList.update p (File c) f))"

text \<open>
  \<open>os.rename(src, dst)\<close>; the program calls it only after checking that \<open>dst\<close> does
  not exist. A directory moves with everything below it.
\<close>

definition rename :: "filesystem \<Rightarrow> path \<Rightarrow> path \<Rightarrow> error + filesystem" where
  "rename f src dst =
     (case map_of f src of
        None \<Rightarrow> Inl FileNotFoundError
      | Some (File c) \<Rightarrow> Inr (AList.update dst (File c) (AList.delete src f))
      | Some Dir \<Rightarrow>
          Inr (map (\<lambda>(p, n). (if is_under src p then dst @ drop (length src) p else p, n)) f))"

text \<open>
  \<open>Path.mkdir(parents=True, exist_ok=True)\<close>: walks down from the root, creating every
  missing directory; a regular file in the way raises.
\<close>

fun mkdir_chain :: "filesystem \<Rightarrow> path \<Rightarrow> string list \<Rightarrow> error + filesystem" where
  "mkdir_chain f pre [] = Inr f"
| "mkdir_chain f pre (x # xs) =
     (case map_of f (pre @ [x]) of
        None \<Rightarrow> mkdir_chain (f @ [(pre @ [x], Dir)]) (pre @ [x]) xs
      | Some Dir \<Rightarrow> mkdir_chain f (pre @ [x]) xs
      | Some (File c) \<Rightarrow> Inl (if xs = [] then FileExistsError else NotADirectoryError))"

definition mkdir_parents :: "filesystem \<Rightarrow> path \<Rightarrow> error + filesystem" where
  "mkdir_parents f p = mkdir_chain f [] p"

subsection \<open>Images and the codec library\<close>

type_synonym pixels = "nat list"

record image =
  width :: nat
  height :: nat
  mode :: string
  pixel_data :: pixels

datatype output_format = JPEG | PNG | WEBP

text \<open>The keyword arguments of \<open>img.save\<close>; a key the program does not set is \<open>None\<close>.\<close>

record save_kwargs =
  kw_optimize :: bool
  kw_format :: "output_format option"
  kw_quality :: "int option"
  kw_progressive :: "bool option"
  kw_method :: "int option"

text \<open>
  The calls into Pillow. \<open>image_open\<close> is \<open>Image.open\<close> on the bytes of the file,
  \<open>convert\<close> is \<open>img.convert(mode)\<close>, \<open>alpha_band\<close> is \<open>img.split()[-1]\<close>,
  \<open>paste\<close> gives the pixels of the background after \<open>background.paste(img, mask)\<close>
  (a paste never changes the size or mode of the image pasted into), \<open>thumbnail\<close> is
  \<open>img.thumbnail(box, LANCZOS)\<close>, and \<open>encode\<close> produces the bytes that
  \<open>img.save\<close> writes.
\<close>

record codec =
  image_open :: "bytes \<Rightarrow> error + image"
  convert :: "image \<Rightarrow> string \<Rightarrow> error + image"
  alpha_band :: "image \<Rightarrow> error + image"
  paste :: "image \<Rightarrow> image \<Rightarrow> image option \<Rightarrow> error + pixels"
  thumbnail :: "image \<Rightarrow> int \<times> int \<Rightarrow> error + image"
  exif_transpose :: "image \<Rightarrow> error + image"
  encode :: "image \<Rightarrow> save_kwargs \<Rightarrow> error + bytes"

subsection \<open>The optimizer object\<close>

record config =
  quality :: int
  max_width :: int
  max_height :: int
  progressive :: bool

record stats =
  processed :: int
  skipped :: int
  errors :: int
  original_size :: int
  optimized_size :: int

definition initial_stats :: stats where
  "initial_stats =
     \<lparr>processed = 0, skipped = 0, errors = 0, original_size = 0, optimized_size = 0\<rparr>"

text \<open>
  Standard output: one constructor per message of the program, with the values it
  prints. The numbers of a line are kept as numbers: the rendering of floats as decimal
  text is not modelled, except for the sign that the format \<open>+.1f\<close> prints
  (\<open>sign_flag\<close> below).
\<close>

datatype line =
    Ok_line string int int rat
  | Error_line string error
  | Dir_missing_line string
  | No_images_line
  | Found_line nat
  | Rule_line
  | Summary_line int int int int
  | Saved_line int rat
  | Quality_error_line
  | Config_line string bool int int int bool bool "string option"
  | Completed_line
  | Not_completed_line
  | Unexpected_line error

record state =
  fs :: filesystem
  st :: stats
  out :: "line list"

definition supported_formats :: "string list" where
  "supported_formats = [''.jpg'', ''.jpeg'', ''.png'', ''.webp'', ''.bmp'', ''.tiff'']"

definition is_image_file :: "path \<Rightarrow> bool" where
  "is_image_file filepath = (lower (path_suffix filepath) \<in> set supported_formats)"

definition get_output_format :: "path \<Rightarrow> output_format" where
  "get_output_format input_path =
     (let ext = lower (path_suffix input_path) in
      if ext \<in> set [''.jpg'', ''.jpeg'', ''.bmp'', ''.tiff''] then JPEG
      else if ext = ''.png'' then PNG
      else if ext = ''.webp'' then WEBP
      else JPEG)"

subsection \<open>The per-image pipeline\<close>

definition white_canvas :: "nat \<Rightarrow> nat \<Rightarrow> image" where
  "white_canvas w h =
     \<lparr>width = w, height = h, mode = ''RGB'', pixel_data = replicate (w * h * 3) 255\<rparr>"

text \<open>Lines 64 to 72: transparency is flattened onto white before a JPEG is written.\<close>

definition normalize_mode :: "codec \<Rightarrow> output_format \<Rightarrow> image \<Rightarrow> error + image" where
  "normalize_mode c fmt img =
     (if fmt = JPEG \<and> mode img \<in> set [''RGBA'', ''LA'', ''P''] then
        (let background = white_canvas (width img) (height img) in
         case (if mode img = ''P'' then convert c img ''RGBA'' else Inr img) of
           Inl e \<Rightarrow> Inl e
         | Inr img1 \<Rightarrow>
             (case (if mode img1 = ''RGBA''
                    then (case alpha_band c img1 of Inl e \<Rightarrow> Inl e | Inr m \<Rightarrow> Inr (Some m))
                    else Inr None) of
                Inl e \<Rightarrow> Inl e
              | Inr alpha \<Rightarrow>
                  (case paste c background img1 alpha of
                     Inl e \<Rightarrow> Inl e
                   | Inr px \<Rightarrow> Inr (background\<lparr>pixel_data := px\<rparr>))))
      else Inr img)"

text \<open>Lines 74 to 76: the resize guard and the call of \<open>thumbnail\<close>.\<close>

definition resize_step :: "codec \<Rightarrow> config \<Rightarrow> image \<Rightarrow> error + image" where
  "resize_step c cfg img =
     (if int (width img) > max_width cfg \<or> int (height img) > max_height cfg
      then thumbnail c img (max_width cfg, max_height cfg)
      else Inr img)"

text \<open>Lines 81 to 105: the options of \<open>save\<close>, and the forced \<open>.jpg\<close> extension.\<close>

definition make_save_kwargs :: "config \<Rightarrow> output_format \<Rightarrow> save_kwargs" where
  "make_save_kwargs cfg fmt =
     (let base = \<lparr>kw_optimize = True, kw_format = None, kw_quality = None,
                  kw_progressive = None, kw_method = None\<rparr> in
      case fmt of
        JPEG \<Rightarrow> base\<lparr>kw_quality := Some (quality cfg),
                      kw_progressive := Some (progressive cfg), kw_format := Some JPEG\<rparr>
      | PNG \<Rightarrow> base\<lparr>kw_optimize := True, kw_format := Some PNG\<rparr>
      | WEBP \<Rightarrow> base\<lparr>kw_quality := Some (quality cfg), kw_method := Some 6,
                      kw_format := Some WEBP\<rparr>)"

definition final_output_path :: "output_format \<Rightarrow> path \<Rightarrow> error + path" where
  "final_output_path fmt output_path =
     (if fmt = JPEG \<and> lower (path_suffix output_path) \<notin> set [''.jpg'', ''.jpeg'']
      then with_suffix output_path ''.jpg''
      else Inr output_path)"

text \<open>
  Lines 63 to 108 up to the write: open the input, transform, pick the output path and
  encode. Nothing is written yet, so the result is a value or the first exception.
\<close>

definition open_and_encode ::
  "codec \<Rightarrow> config \<Rightarrow> filesystem \<Rightarrow> path \<Rightarrow> path \<Rightarrow> error + (path \<times> bytes)" where
  "open_and_encode c cfg f input_path output_path =
     (case read_file f input_path of
        Inl e \<Rightarrow> Inl e
      | Inr content \<Rightarrow>
     (case image_open c content of
        Inl e \<Rightarrow> Inl e
      | Inr img \<Rightarrow>
     (let fmt = get_output_format input_path in
      case normalize_mode c fmt img of
        Inl e \<Rightarrow> Inl e
      | Inr img1 \<Rightarrow>
     (case resize_step c cfg img1 of
        Inl e \<Rightarrow> Inl e
      | Inr img2 \<Rightarrow>
     (case exif_transpose c img2 of
        Inl e \<Rightarrow> Inl e
      | Inr img3 \<Rightarrow>
     (case final_output_path fmt output_path of
        Inl e \<Rightarrow> Inl e
      | Inr output_path' \<Rightarrow>
     (case encode c img3 (make_save_kwargs cfg fmt) of
        Inl e \<Rightarrow> Inl e
      | Inr data \<Rightarrow> Inr (output_path', data))))))))"

subsection \<open>optimize\_image\<close>

text \<open>Lines 51 to 56: the backup rename. The result is the path read from afterwards.\<close>

definition backup_path_of :: "path \<Rightarrow> error + path" where
  "backup_path_of input_path = with_suffix input_path (''.backup'' @ path_suffix input_path)"

definition backup_step ::
  "path \<Rightarrow> path \<Rightarrow> bool \<Rightarrow> filesystem \<Rightarrow> error + (path \<times> filesystem)" where
  "backup_step input_path output_path backup f =
     (if backup \<and> output_path = input_path then
        (case backup_path_of input_path of
           Inl e \<Rightarrow> Inl e
         | Inr backup_path \<Rightarrow>
             if \<not> path_exists f backup_path then
               (case rename f input_path backup_path of
                  Inl e \<Rightarrow> Inl e
                | Inr f' \<Rightarrow> Inr (backup_path, f'))
             else Inr (input_path, f))
      else Inr (input_path, f))"

definition reduction_percent :: "int \<Rightarrow> int \<Rightarrow> rat" where
  "reduction_percent original optimized =
     (of_int (original - optimized) / of_int original) * 100"

text \<open>
  The sign printed by the format \<open>+.1f\<close>: a minus for a negative number, a plus
  otherwise. (The quotient of two integers is negative as a float exactly when it is
  negative as a rational.)
\<close>

definition sign_flag :: "rat \<Rightarrow> char" where
  "sign_flag r = (if r < 0 then CHR ''-'' else CHR ''+'')"

text \<open>
  The body of the \<open>try\<close>. It returns the exception raised, if any, the binding of
  \<open>input_path\<close> at that moment (the handler prints its name) and the state reached:
  what was renamed, written or counted before an exception stays so.
\<close>

definition optimize_image_try ::
  "codec \<Rightarrow> config \<Rightarrow> path \<Rightarrow> path option \<Rightarrow> bool \<Rightarrow> state
     \<Rightarrow> (error + unit) \<times> path \<times> state" where
  "optimize_image_try c cfg input_path0 output_path_arg backup s =
     (let output_path = (case output_path_arg of None \<Rightarrow> input_path0 | Some p \<Rightarrow> p) in
      case backup_step input_path0 output_path backup (fs s) of
        Inl e \<Rightarrow> (Inl e, input_path0, s)
      | Inr (input_path, f1) \<Rightarrow>
     (let s1 = s\<lparr>fs := f1\<rparr> in
      case getsize f1 input_path of
        Inl e \<Rightarrow> (Inl e, input_path, s1)
      | Inr original \<Rightarrow>
     (let s2 = s1\<lparr>st := (st s1)\<lparr>original_size := original_size (st s1) + original\<rparr>\<rparr> in
      case open_and_encode c cfg f1 input_path output_path of
        Inl e \<Rightarrow> (Inl e, input_path, s2)
      | Inr (output_path', data) \<Rightarrow>
     (case write_file f1 output_path' data of
        Inl e \<Rightarrow> (Inl e, input_path, s2)
      | Inr f2 \<Rightarrow>
     (let s3 = s2\<lparr>fs := f2\<rparr> in
      case getsize f2 output_path' of
        Inl e \<Rightarrow> (Inl e, input_path, s3)
      | Inr optimized \<Rightarrow>
     (let s4 = s3\<lparr>st := (st s3)\<lparr>optimized_size := optimized_size (st s3) + optimized,
                                  processed := processed (st s3) + 1\<rparr>\<rparr> in
      if original = 0 then (Inl ZeroDivisionError, input_path, s4)
      else (Inr (), input_path,
            s4\<lparr>out := out s4 @ [Ok_line (path_name input_path) original optimized
                                    (reduction_percent original optimized)]\<rparr>)))))))"

definition optimize_image ::
  "codec \<Rightarrow> config \<Rightarrow> path \<Rightarrow> path option \<Rightarrow> bool \<Rightarrow> state \<Rightarrow> bool \<times> state" where
  "optimize_image c cfg input_path output_path backup s =
     (case optimize_image_try c cfg input_path output_path backup s of
        (Inr u, ip, s') \<Rightarrow> (True, s')
      | (Inl e, ip, s') \<Rightarrow>
          (False, s'\<lparr>out := out s' @ [Error_line (path_name ip) e],
                     st := (st s')\<lparr>errors := errors (st s') + 1\<rparr>\<rparr>))"

subsection \<open>optimize\_directory\<close>

text \<open>
  \<open>Path(str)\<close>: the text is split at \<open>/\<close>; empty components and \<open>.\<close> are dropped; a
  leading \<open>/\<close> is kept as the first component.
\<close>

fun split_sep :: "string \<Rightarrow> string list" where
  "split_sep [] = [[]]"
| "split_sep (ch # cs) =
     (if ch = CHR ''/'' then [] # split_sep cs
      else (case split_sep cs of [] \<Rightarrow> [[ch]] | w # ws \<Rightarrow> (ch # w) # ws))"

definition Path :: "string \<Rightarrow> path" where
  "Path t =
     (if t \<noteq> [] \<and> hd t = CHR ''/'' then [''/''] else [])
       @ filter (\<lambda>w. w \<noteq> [] \<and> w \<noteq> ''.'') (split_sep t)"

text \<open>
  \<open>directory.glob("*")\<close> lists the entries directly in the directory,
  \<open>directory.glob("**/*")\<close> everything below it; neither yields anything when the
  path is not a directory.
\<close>

definition glob :: "filesystem \<Rightarrow> path \<Rightarrow> bool \<Rightarrow> path list" where
  "glob f directory recursive =
     (if is_dir f directory then
        filter (\<lambda>p. is_under directory p \<and>
                     (if recursive then length directory < length p
                      else length p = length directory + 1))
          (map fst f)
      else [])"

definition find_image_files :: "filesystem \<Rightarrow> path \<Rightarrow> bool \<Rightarrow> path list" where
  "find_image_files f directory recursive =
     filter (\<lambda>p. is_file f p \<and> is_image_file p) (glob f directory recursive)"

definition print_summary :: "state \<Rightarrow> state" where
  "print_summary s =
     (let t = st s;
          s1 = s\<lparr>out := out s @ [Rule_line,
                 Summary_line (processed t) (errors t) (original_size t) (optimized_size t)]\<rparr>
      in if original_size t > 0
         then s1\<lparr>out := out s1 @ [Saved_line (original_size t - optimized_size t)
                                     (reduction_percent (original_size t) (optimized_size t))]\<rparr>
         else s1)"

text \<open>
  Lines 161 to 167: where the result of one file goes. With an output directory the
  path relative to the source directory is mirrored under it and the directories
  above it are created; without, \<open>output_path\<close> is \<open>None\<close>.
\<close>

definition mirror_output_path ::
  "path \<Rightarrow> path option \<Rightarrow> path \<Rightarrow> state \<Rightarrow> error + (path option \<times> state)" where
  "mirror_output_path directory output_directory image_file s =
     (case output_directory of
        Some od \<Rightarrow>
          (case relative_to image_file directory of
             Inl e \<Rightarrow> Inl e
           | Inr relative_path \<Rightarrow>
               (case mkdir_parents (fs s) (parent (od @ relative_path)) of
                  Inl e \<Rightarrow> Inl e
                | Inr f' \<Rightarrow> Inr (Some (od @ relative_path), s\<lparr>fs := f'\<rparr>)))
      | None \<Rightarrow> Inr (None, s))"

text \<open>
  Lines 160 to 172, the loop. The calls before \<open>optimize_image\<close> (\<open>relative_to\<close>,
  \<open>mkdir\<close>) are outside any \<open>try\<close>: an exception there ends the loop and leaves
  \<open>optimize_directory\<close>.
\<close>

definition count_skipped :: "bool \<Rightarrow> state \<Rightarrow> state" where
  "count_skipped success s =
     (if \<not> success then s\<lparr>st := (st s)\<lparr>skipped := skipped (st s) + 1\<rparr>\<rparr> else s)"

fun process_files ::
  "codec \<Rightarrow> config \<Rightarrow> path \<Rightarrow> path option \<Rightarrow> bool \<Rightarrow> path list \<Rightarrow> state
     \<Rightarrow> (error + unit) \<times> state" where
  "process_files c cfg directory output_directory backup [] s = (Inr (), s)"
| "process_files c cfg directory output_directory backup (image_file # rest) s =
     (case mirror_output_path directory output_directory image_file s of
        Inl e \<Rightarrow> (Inl e, s)
      | Inr (output_path, s1) \<Rightarrow>
          (case optimize_image c cfg image_file output_path backup s1 of
             (success, s2) \<Rightarrow>
               process_files c cfg directory output_directory backup rest
                 (count_skipped success s2)))"

text \<open>\<open>if output_dir:\<close> holds for a string that is given and not empty.\<close>

definition given_output :: "string option \<Rightarrow> path option" where
  "given_output output_dir =
     (case output_dir of
        None \<Rightarrow> None
      | Some t \<Rightarrow> (if t = [] then None else Some (Path t)))"

definition optimize_directory ::
  "codec \<Rightarrow> config \<Rightarrow> string \<Rightarrow> bool \<Rightarrow> bool \<Rightarrow> string option \<Rightarrow> state
     \<Rightarrow> (error + bool) \<times> state" where
  "optimize_directory c cfg directory_path recursive backup output_dir s =
     (let directory = Path directory_path in
      if \<not> path_exists (fs s) directory
      then (Inr False, s\<lparr>out := out s @ [Dir_missing_line directory_path]\<rparr>)
      else
        (case (case given_output output_dir of
                 None \<Rightarrow> Inr s
               | Some od \<Rightarrow>
                   (case mkdir_parents (fs s) od of
                      Inl e \<Rightarrow> Inl e
                    | Inr f' \<Rightarrow> Inr (s\<lparr>fs := f'\<rparr>))) of
           Inl e \<Rightarrow> (Inl e, s)
         | Inr s1 \<Rightarrow>
             (let image_files = find_image_files (fs s1) directory recursive in
              if image_files = []
              then (Inr False, s1\<lparr>out := out s1 @ [No_images_line]\<rparr>)
              else
                (case process_files c cfg directory (given_output output_dir) backup image_files
                        (s1\<lparr>out := out s1 @ [Found_line (length image_files), Rule_line]\<rparr>) of
                   (Inl e, s2) \<Rightarrow> (Inl e, s2)
                 | (Inr u, s2) \<Rightarrow> (Inr True, print_summary s2)))))"

subsection \<open>main\<close>

text \<open>The namespace that \<open>argparse\<close> returns.\<close>

record args =
  arg_directory :: string
  arg_recursive :: bool
  arg_quality :: int
  arg_max_width :: int
  arg_max_height :: int
  arg_max_size :: "int option"
  arg_backup :: bool
  arg_output :: "string option"
  arg_no_progressive :: bool

text \<open>Lines 254 to 257. \<open>if args.max_size:\<close> holds for a value that is given and not 0.\<close>

definition apply_max_size :: "args \<Rightarrow> args" where
  "apply_max_size a =
     (case arg_max_size a of
        None \<Rightarrow> a
      | Some m \<Rightarrow> (if m \<noteq> 0 then a\<lparr>arg_max_width := m, arg_max_height := m\<rparr> else a))"

definition make_optimizer :: "args \<Rightarrow> config" where
  "make_optimizer a =
     \<lparr>quality = arg_quality a, max_width = arg_max_width a, max_height = arg_max_height a,
      progressive = (\<not> arg_no_progressive a)\<rparr>"

text \<open>Lines 254 to 299: everything after the validation of the quality.\<close>

definition run_optimizer :: "codec \<Rightarrow> args \<Rightarrow> state \<Rightarrow> nat \<times> state" where
  "run_optimizer c a0 s =
     (let a = apply_max_size a0;
          optimizer = make_optimizer a;
          s1 = s\<lparr>out := out s @ [Config_line (arg_directory a) (arg_recursive a) (arg_quality a)
                   (arg_max_width a) (arg_max_height a) (arg_no_progressive a) (arg_backup a)
                   (case given_output (arg_output a) of None \<Rightarrow> None | Some p \<Rightarrow> arg_output a),
                   Rule_line]\<rparr>
      in case optimize_directory c optimizer (arg_directory a) (arg_recursive a) (arg_backup a)
                (arg_output a) s1 of
           (Inr True, s2) \<Rightarrow> (0, s2\<lparr>out := out s2 @ [Completed_line]\<rparr>)
         | (Inr False, s2) \<Rightarrow> (1, s2\<lparr>out := out s2 @ [Not_completed_line]\<rparr>)
         | (Inl e, s2) \<Rightarrow> (1, s2\<lparr>out := out s2 @ [Unexpected_line e]\<rparr>))"

text \<open>
  \<open>main\<close> after \<open>parse_args\<close>: the exit status and the final state. The optimizer starts
  with all counters at 0.
\<close>

definition main :: "codec \<Rightarrow> args \<Rightarrow> filesystem \<Rightarrow> nat \<times> state" where
  "main c a f =
     (let s = \<lparr>fs = f, st = initial_stats, out = []\<rparr> in
      if arg_quality a < 1 \<or> arg_quality a > 100
      then (1, s\<lparr>out := out s @ [Quality_error_line]\<rparr>)
      else run_optimizer c a s)"

subsection \<open>A small codec, for running the model on concrete inputs\<close>

text \<open>
  Modelled from the spec: Pillow's \<open>Image.thumbnail\<close> is not part of the repository.
  The spec describes it as an aspect-preserving fit within the box that never
  enlarges: the side that binds takes the box's length, the other is scaled by the same
  factor and rounded down, but to no less than one pixel. A box or an image without
  area raises.
\<close>

definition fit_within_box :: "image \<Rightarrow> int \<times> int \<Rightarrow> error + image" where
  "fit_within_box img box =
     (case box of (mw, mh) \<Rightarrow>
        (let w = int (width img); h = int (height img) in
         if mw < 1 \<or> mh < 1 \<or> w < 1 \<or> h < 1 then Inl ValueError
         else if w \<le> mw \<and> h \<le> mh then Inr img
         else if w * mh \<le> mw * h
         then Inr (img\<lparr>width := nat (max 1 (w * mh div h)), height := nat mh\<rparr>)
         else Inr (img\<lparr>width := nat mw, height := nat (max 1 (h * mw div w))\<rparr>)))"

text \<open>
  A toy image format: the first two bytes are the width and the height, a third byte
  \<open>A\<close> or \<open>P\<close> marks an image with alpha or with a palette, the rest is pixel data. A
  file that is shorter, or that starts with \<open>X\<close>, is not an image. Encoding writes the
  three header bytes only.
\<close>

definition toy_open :: "bytes \<Rightarrow> error + image" where
  "toy_open d =
     (case d of
        a # b # rest \<Rightarrow>
          (if a = CHR ''X'' then Inl (CodecError ''cannot identify image file'')
           else Inr \<lparr>width = of_char a, height = of_char b,
                     mode = (if take 1 rest = ''A'' then ''RGBA''
                             else if take 1 rest = ''P'' then ''P'' else ''RGB''),
                     pixel_data = map of_char (drop 1 rest)\<rparr>)
      | _ \<Rightarrow> Inl (CodecError ''cannot identify image file''))"

definition toy_encode :: "image \<Rightarrow> save_kwargs \<Rightarrow> error + bytes" where
  "toy_encode img kw =
     Inr [char_of (width img), char_of (height img),
          (if mode img = ''RGBA'' then CHR ''A'' else if mode img = ''P'' then CHR ''P''
           else CHR ''C'')]"

definition toy_codec :: codec where
  "toy_codec =
     \<lparr>image_open = toy_open,
      convert = (\<lambda>img m. Inr (img\<lparr>mode := m\<rparr>)),
      alpha_band = (\<lambda>img. Inr (img\<lparr>mode := ''L''\<rparr>)),
      paste = (\<lambda>background img alpha. Inr (pixel_data background)),
      thumbnail = fit_within_box,
      exif_transpose = (\<lambda>img. Inr img),
      encode = toy_encode\<rparr>"

definition default_args :: args where
  "default_args =
     \<lparr>arg_directory = ''.'', arg_recursive = False, arg_quality = 85, arg_max_width = 1920,
      arg_max_height = 1080, arg_max_size = None, arg_backup = False, arg_output = None,
      arg_no_progressive = False\<rparr>"

text \<open>A directory with two images and one file that is not an image.\<close>

definition photos_fs :: filesystem where
  "photos_fs =
     [([''photos''], Dir),
      ([''photos'', ''a.png''], File ''dd-pixels''),
      ([''photos'', ''b.bmp''], File ''dd-pixels''),
      ([''photos'', ''c.jpg''], File ''Xbad'')]"

definition photos_state :: state where
  "photos_state = \<lparr>fs = photos_fs, st = initial_stats, out = []\<rparr>"

definition photos_args :: args where
  "photos_args = default_args\<lparr>arg_directory := ''photos''\<rparr>"

text \<open>
  A file of two bytes that is an image: its encoding, three bytes, is longer than the
  file.
\<close>

definition tiny_state :: state where
  "tiny_state = \<lparr>fs = [([''photos''], Dir), ([''photos'', ''t.png''], File ''dd'')],
                  st = initial_stats, out = []\<rparr>"



definition same_root_args :: args where
  "same_root_args = photos_args\<lparr>arg_output := Some ''photos''\<rparr>"




subsection \<open>Predicates used in the statements\<close>

text \<open>
  \<open>Image.open\<close> cannot identify a file of no bytes: it raises. The statements that
  need this fact about the library take it as a hypothesis on the codec.
\<close>

definition rejects_empty_file :: "codec \<Rightarrow> bool" where
  "rejects_empty_file c = (case image_open c [] of Inl e \<Rightarrow> True | Inr img \<Rightarrow> False)"




section \<open>Command line\<close>

text \<open>
  C8. The override of \<open>--max-width\<close> and \<open>--max-height\<close> by \<open>--max-size\<close> is
  guarded by the truth value of the argument, so it is skipped for the integer 0: with
  \<open>--max-size 0\<close> the optimizer is built with the other two arguments (here their
  defaults, 1920 and 1080), not with 0.
\<close>

theorem max_size_zero_not_applied:
  "max_width (make_optimizer (apply_max_size (default_args\<lparr>arg_max_size := Some 0\<rparr>))) = 1920 \<and>
   max_height (make_optimizer (apply_max_size (default_args\<lparr>arg_max_size := Some 0\<rparr>))) = 1080"
  by (simp add: make_optimizer_def apply_max_size_def default_args_def)

text \<open>Every other integer given as \<open>--max-size\<close> becomes both maxima.\<close>

lemma max_size_nonzero_applied:
  "arg_max_size a = Some m \<Longrightarrow> m \<noteq> 0 \<Longrightarrow>
   max_width (make_optimizer (apply_max_size a)) = m \<and>
   max_height (make_optimizer (apply_max_size a)) = m"
  by (simp add: make_optimizer_def apply_max_size_def)

section \<open>Counters\<close>

subsection \<open>One image\<close>

lemma getsize_zero_read:
  "getsize f p = Inr 0 \<Longrightarrow> read_file f p = Inr []"
  by (cases "map_of f p")
     (auto simp: getsize_def read_file_def dir_size_def split: node.splits if_splits)

lemma open_and_encode_empty:
  "rejects_empty_file c \<Longrightarrow> getsize f p = Inr 0 \<Longrightarrow> open_and_encode c cfg f p q = Inr x \<Longrightarrow> False"
  by (drule getsize_zero_read) (simp add: open_and_encode_def rejects_empty_file_def split: sum.splits)

lemma try_skipped:
  "skipped (st (snd (snd (optimize_image_try c cfg p q b s)))) = skipped (st s)"
  by (simp add: optimize_image_try_def Let_def split: sum.split prod.split)

lemma try_errors:
  "errors (st (snd (snd (optimize_image_try c cfg p q b s)))) = errors (st s)"
  by (simp add: optimize_image_try_def Let_def split: sum.split prod.split)

lemma try_processed:
  "rejects_empty_file c \<Longrightarrow>
   processed (st (snd (snd (optimize_image_try c cfg p q b s)))) =
     processed (st s) + (case fst (optimize_image_try c cfg p q b s) of Inl e \<Rightarrow> 0 | Inr u \<Rightarrow> 1)"
  by (auto simp: optimize_image_try_def Let_def split: sum.split prod.split dest: open_and_encode_empty)


lemma image_counters:
  "rejects_empty_file c \<Longrightarrow> optimize_image c cfg p q b s = (ok, s') \<Longrightarrow>
   skipped (st s') = skipped (st s) \<and>
   errors (st s') = errors (st s) + (if ok then 0 else 1) \<and>
   processed (st s') = processed (st s) + (if ok then 1 else 0)"
  using try_skipped[of c cfg p q b s] try_errors[of c cfg p q b s] try_processed[of c cfg p q b s]
  by (auto simp: optimize_image_def split: prod.splits sum.splits)

lemma image_skipped_errors:
  "optimize_image c cfg p q b s = (ok, s') \<Longrightarrow>
   skipped (st s') = skipped (st s) \<and>
   errors (st s') = errors (st s) + (if ok then 0 else 1)"
  using try_skipped[of c cfg p q b s] try_errors[of c cfg p q b s]
  by (auto simp: optimize_image_def split: prod.splits sum.splits)

lemma mirror_output_path_st:
  "mirror_output_path d od image_file s = Inr (q, s1) \<Longrightarrow> st s1 = st s \<and> out s1 = out s"
  by (auto simp: mirror_output_path_def split: option.splits sum.splits)

lemma process_files_skipped_errors:
  "skipped (st (snd (process_files c cfg d od b files s))) - skipped (st s) =
   errors (st (snd (process_files c cfg d od b files s))) - errors (st s)"
proof (induction files arbitrary: s)
  case Nil
  show ?case by simp
next
  case (Cons image_file rest)
  show ?case
  proof (cases "mirror_output_path d od image_file s")
    case (Inl e)
    then show ?thesis by simp
  next
    case (Inr r)
    obtain q s1 where r: "r = (q, s1)" by (cases r)
    obtain ok s2 where o: "optimize_image c cfg image_file q b s1 = (ok, s2)"
      by (cases "optimize_image c cfg image_file q b s1")
    have s1: "st s1 = st s"
      using Inr r mirror_output_path_st by blast
    have step: "skipped (st (count_skipped ok s2)) - skipped (st s) =
                errors (st (count_skipped ok s2)) - errors (st s)"
      using image_skipped_errors[OF o] s1 by (simp add: count_skipped_def)
    show ?thesis
      using Cons.IH[of "count_skipped ok s2"] step Inr r o by simp
  qed
qed

lemma process_files_count:
  "rejects_empty_file c \<Longrightarrow> process_files c cfg d od b files s = (Inr u, s') \<Longrightarrow>
   processed (st s') + errors (st s') = processed (st s) + errors (st s) + int (length files)"
proof (induction files arbitrary: s)
  case Nil
  then show ?case by simp
next
  case (Cons image_file rest)
  show ?case
  proof (cases "mirror_output_path d od image_file s")
    case (Inl e)
    then show ?thesis using Cons.prems by simp
  next
    case (Inr r)
    obtain q s1 where r: "r = (q, s1)" by (cases r)
    obtain ok s2 where o: "optimize_image c cfg image_file q b s1 = (ok, s2)"
      by (cases "optimize_image c cfg image_file q b s1")
    have s1: "st s1 = st s"
      using Inr r mirror_output_path_st by blast
    have step: "processed (st (count_skipped ok s2)) + errors (st (count_skipped ok s2)) =
                processed (st s) + errors (st s) + 1"
      using image_counters[OF Cons.prems(1) o] s1 by (simp add: count_skipped_def)
    have rest: "process_files c cfg d od b rest (count_skipped ok s2) = (Inr u, s')"
      using Cons.prems(2) Inr r o by simp
    show ?thesis
      using Cons.IH[OF Cons.prems(1) rest] step by simp
  qed
qed

subsection \<open>The batch\<close>

lemma mkdir_chain_files:
  "mkdir_chain f pre xs = Inr f' \<Longrightarrow>
   (\<forall>p. map_of f p \<noteq> None \<longrightarrow> map_of f' p = map_of f p) \<and>
   (\<forall>p. map_of f p = None \<longrightarrow> map_of f' p = None \<or> map_of f' p = Some Dir) \<and>
   (\<exists>ys. f' = f @ ys \<and> (\<forall>e \<in> set ys. snd e = Dir \<and> map_of f (fst e) = None))"
proof (induction f pre xs arbitrary: f' rule: mkdir_chain.induct)
  case (1 f pre)
  then show ?case by simp
next
  case (2 f pre x xs)
  show ?case
  proof (cases "map_of f (pre @ [x])")
    case None
    let ?g = "f @ [(pre @ [x], Dir)]"
    from "2.prems" None have r: "mkdir_chain ?g (pre @ [x]) xs = Inr f'" by simp
    note ih = "2.IH"(1)[OF None r]
    have g1: "\<And>p. map_of f p \<noteq> None \<Longrightarrow> map_of ?g p = map_of f p"
      by (auto simp: map_add_def split: option.splits)
    have g2: "\<And>p. map_of f p = None \<Longrightarrow> map_of ?g p = None \<or> map_of ?g p = Some Dir"
      by (auto simp: map_add_def split: option.splits)
    from ih obtain ys where ys: "f' = ?g @ ys" "\<forall>e \<in> set ys. snd e = Dir \<and> map_of ?g (fst e) = None"
      by blast
    have a: "\<forall>p. map_of f p \<noteq> None \<longrightarrow> map_of f' p = map_of f p"
      using ih g1 by (metis)
    have b: "\<forall>p. map_of f p = None \<longrightarrow> map_of f' p = None \<or> map_of f' p = Some Dir"
      using ih g2 by (metis)
    have c: "\<exists>zs. f' = f @ zs \<and> (\<forall>e \<in> set zs. snd e = Dir \<and> map_of f (fst e) = None)"
    proof (intro exI conjI)
      show "f' = f @ ((pre @ [x], Dir) # ys)" using ys(1) by simp
      show "\<forall>e \<in> set ((pre @ [x], Dir) # ys). snd e = Dir \<and> map_of f (fst e) = None"
        using ys(2) None g1 by (metis fst_conv set_ConsD snd_conv)
    qed
    from a b c show ?thesis by blast
  next
    case (Some n)
    show ?thesis
    proof (cases n)
      case (File c)
      with Some "2.prems" show ?thesis by simp
    next
      case Dir
      with Some "2.prems" have r: "mkdir_chain f (pre @ [x]) xs = Inr f'" by simp
      from "2.IH"(2)[OF Some Dir r] show ?thesis .
    qed
  qed
qed


lemma find_image_files_mkdir:
  assumes m: "mkdir_chain f pre xs = Inr f'" and d: "path_exists f d"
  shows "find_image_files f' d r = find_image_files f d r"
proof -
  from mkdir_chain_files[OF m] obtain ys where
    keep: "\<And>p. map_of f p \<noteq> None \<Longrightarrow> map_of f' p = map_of f p" and
    fresh: "\<And>p. map_of f p = None \<Longrightarrow> map_of f' p = None \<or> map_of f' p = Some Dir" and
    ys: "f' = f @ ys" "\<forall>e \<in> set ys. snd e = Dir \<and> map_of f (fst e) = None"
    by blast
  have dir: "is_dir f' d = is_dir f d"
    using d keep[of d] by (auto simp: is_dir_def path_exists_def)
  have old: "\<And>p n. (p, n) \<in> set f \<Longrightarrow> is_file f' p = is_file f p"
  proof -
    fix p n assume "(p, n) \<in> set f"
    then have "p \<in> fst ` set f" by force
    then have "map_of f p \<noteq> None" by (simp add: map_of_eq_None_iff)
    from keep[OF this] show "is_file f' p = is_file f p" by (simp add: is_file_def)
  qed
  have new: "\<And>p n. (p, n) \<in> set ys \<Longrightarrow> \<not> is_file f' p"
  proof -
    fix p n assume "(p, n) \<in> set ys"
    then have "map_of f p = None" using ys(2) by force
    from fresh[OF this] show "\<not> is_file f' p" by (auto simp: is_file_def)
  qed
  show ?thesis
  proof (cases "is_dir f d")
    case False
    with dir show ?thesis by (simp add: find_image_files_def glob_def)
  next
    case True
    let ?P = "\<lambda>p. is_under d p \<and> (if r then length d < length p else length p = length d + 1)"
    have a: "filter (\<lambda>p. is_file f' p \<and> is_image_file p) (filter ?P (map fst f)) =
             filter (\<lambda>p. is_file f p \<and> is_image_file p) (filter ?P (map fst f))"
      by (rule filter_cong) (auto dest: old)
    have b: "filter (\<lambda>p. is_file f' p \<and> is_image_file p) (filter ?P (map fst ys)) = []"
      using new by (auto simp: filter_empty_conv)
    show ?thesis
      using True dir a b by (simp add: find_image_files_def glob_def ys(1))
  qed
qed

lemma print_summary_st: "st (print_summary s) = st s"
  by (simp add: print_summary_def Let_def)

lemma optimize_directory_skipped_errors:
  "skipped (st (snd (optimize_directory c cfg dp r b od s))) - skipped (st s) =
   errors (st (snd (optimize_directory c cfg dp r b od s))) - errors (st s)"
proof -
  have loop: "\<And>files s1 u s2 o'. process_files c cfg (Path dp) o' b files s1 = (u, s2) \<Longrightarrow>
      st s1 = st s \<Longrightarrow>
      skipped (st s2) - skipped (st s) = errors (st s2) - errors (st s)"
    using process_files_skipped_errors by (metis snd_conv)
  show ?thesis
    unfolding optimize_directory_def Let_def
    by (auto simp: print_summary_st split: option.splits sum.splits prod.splits dest!: loop)
qed

lemma optimize_directory_count:
  assumes c: "rejects_empty_file c"
    and r: "fst (optimize_directory c cfg dp r b od s) = Inr ok"
  shows "processed (st (snd (optimize_directory c cfg dp r b od s))) +
         errors (st (snd (optimize_directory c cfg dp r b od s))) =
         processed (st s) + errors (st s) +
         int (length (find_image_files (fs s) (Path dp) r))"
proof (cases "path_exists (fs s) (Path dp)")
  case False
  then have "\<not> is_dir (fs s) (Path dp)" by (auto simp: path_exists_def is_dir_def)
  then have "find_image_files (fs s) (Path dp) r = []"
    by (simp add: find_image_files_def glob_def)
  with False show ?thesis by (simp add: optimize_directory_def)
next
  case True
  show ?thesis
  proof (cases "given_output od")
    case None
    show ?thesis
    proof (cases "find_image_files (fs s) (Path dp) r = []")
      case e: True
      with True None show ?thesis by (simp add: optimize_directory_def)
    next
      case ne: False
      let ?s1 = "s\<lparr>out := out s @ [Found_line (length (find_image_files (fs s) (Path dp) r)), Rule_line]\<rparr>"
      obtain u s2 where p: "process_files c cfg (Path dp) None b (find_image_files (fs s) (Path dp) r) ?s1 = (u, s2)"
        by (cases "process_files c cfg (Path dp) None b (find_image_files (fs s) (Path dp) r) ?s1")
      from r True None ne p obtain v where u: "u = Inr v"
        by (cases u) (auto simp: optimize_directory_def)
      from process_files_count[OF c p[unfolded u]] True None ne p u
      show ?thesis by (simp add: optimize_directory_def print_summary_st)
    qed
  next
    case (Some odir)
    show ?thesis
    proof (cases "mkdir_parents (fs s) odir")
      case (Inl e)
      with r True Some show ?thesis by (simp add: optimize_directory_def)
    next
      case (Inr f')
      have same: "find_image_files f' (Path dp) r = find_image_files (fs s) (Path dp) r"
        using find_image_files_mkdir[OF Inr[unfolded mkdir_parents_def] True] .
      show ?thesis
      proof (cases "find_image_files (fs s) (Path dp) r = []")
        case e: True
        with True Some Inr same show ?thesis by (simp add: optimize_directory_def)
      next
        case ne: False
        let ?s1 = "s\<lparr>fs := f', out := out s @ [Found_line (length (find_image_files (fs s) (Path dp) r)), Rule_line]\<rparr>"
        obtain u s2 where p: "process_files c cfg (Path dp) (Some odir) b (find_image_files (fs s) (Path dp) r) ?s1 = (u, s2)"
          by (cases "process_files c cfg (Path dp) (Some odir) b (find_image_files (fs s) (Path dp) r) ?s1")
        from r True Some Inr same ne p obtain v where u: "u = Inr v"
          by (cases u) (auto simp: optimize_directory_def)
        from process_files_count[OF c p[unfolded u]] True Some Inr same ne p u
        show ?thesis by (simp add: optimize_directory_def print_summary_st)
      qed
    qed
  qed
qed

text \<open>
  C10. Over a batch the two counters move together: whatever \<open>optimize_directory\<close>
  returns or raises, \<open>skipped\<close> has grown by exactly as much as \<open>errors\<close>. For one
  file, \<open>optimize_image\<close> adds 1 to \<open>errors\<close> exactly when it returns \<open>False\<close> and
  never touches \<open>skipped\<close>; the loop then adds 1 to \<open>skipped\<close> exactly when the result
  was \<open>False\<close>. A run of \<open>main\<close> starts both at 0, so they are equal at its end.
\<close>

theorem skipped_equals_errors_after_batch:
  "skipped (st (snd (optimize_directory c cfg dp r b od s))) - skipped (st s) =
     errors (st (snd (optimize_directory c cfg dp r b od s))) - errors (st s) \<and>
   skipped (st (snd (main c a f))) = errors (st (snd (main c a f))) \<and>
   errors (st (snd (optimize_image c cfg p q b s))) =
     errors (st s) + (if fst (optimize_image c cfg p q b s) then 0 else 1) \<and>
   skipped (st (snd (optimize_image c cfg p q b s))) = skipped (st s) \<and>
   skipped (st (count_skipped ok s)) = skipped (st s) + (if ok then 0 else 1)"
proof -
  let ?s0 = "\<lparr>fs = f, st = initial_stats, out = []\<rparr>"
  have batch: "\<And>s. skipped (st (snd (optimize_directory c cfg dp r b od s))) - skipped (st s) =
     errors (st (snd (optimize_directory c cfg dp r b od s))) - errors (st s)"
    by (rule optimize_directory_skipped_errors)
  have run: "\<And>s. skipped (st s) = errors (st s) \<Longrightarrow>
     skipped (st (snd (run_optimizer c a s))) = errors (st (snd (run_optimizer c a s)))"
  proof -
    fix s :: state
    assume e: "skipped (st s) = errors (st s)"
    let ?a = "apply_max_size a"
    let ?s1 = "s\<lparr>out := out s @ [Config_line (arg_directory ?a) (arg_recursive ?a)
                 (arg_quality ?a) (arg_max_width ?a) (arg_max_height ?a)
                 (arg_no_progressive ?a) (arg_backup ?a)
                 (case given_output (arg_output ?a) of None \<Rightarrow> None
                  | Some p \<Rightarrow> arg_output ?a), Rule_line]\<rparr>"
    obtain u s2 where d: "optimize_directory c (make_optimizer ?a) (arg_directory ?a)
        (arg_recursive ?a) (arg_backup ?a) (arg_output ?a) ?s1 = (u, s2)"
      by (cases "optimize_directory c (make_optimizer ?a) (arg_directory ?a)
        (arg_recursive ?a) (arg_backup ?a) (arg_output ?a) ?s1")
    have "skipped (st s2) = errors (st s2)"
      using optimize_directory_skipped_errors[of c "make_optimizer ?a" "arg_directory ?a"
          "arg_recursive ?a" "arg_backup ?a" "arg_output ?a" ?s1] d e
      by simp
    then show "skipped (st (snd (run_optimizer c a s))) = errors (st (snd (run_optimizer c a s)))"
      using d by (simp add: run_optimizer_def Let_def split: sum.splits bool.splits)
  qed
  have m: "skipped (st (snd (main c a f))) = errors (st (snd (main c a f)))"
    using run[of ?s0] by (simp add: main_def Let_def initial_stats_def)
  obtain k s' where o: "optimize_image c cfg p q b s = (k, s')"
    by (cases "optimize_image c cfg p q b s")
  have i: "errors (st (snd (optimize_image c cfg p q b s))) =
             errors (st s) + (if fst (optimize_image c cfg p q b s) then 0 else 1) \<and>
           skipped (st (snd (optimize_image c cfg p q b s))) = skipped (st s)"
    using image_skipped_errors[OF o] o by simp
  have k: "skipped (st (count_skipped ok s)) = skipped (st s) + (if ok then 0 else 1)"
    by (simp add: count_skipped_def)
  from batch[of s] m i k show ?thesis by blast
qed

theorem skipped_equals_errors_witness:
  "errors (st (snd (main toy_codec photos_args photos_fs))) = 1 \<and>
   skipped (st (snd (main toy_codec photos_args photos_fs))) = 1"
proof -
  have e: "errors (st (snd (main toy_codec photos_args photos_fs))) = 1"
    by code_simp
  from skipped_equals_errors_after_batch
         [of toy_codec "make_optimizer photos_args" "''photos''" False False None photos_state
             photos_args photos_fs "[''photos'', ''c.jpg'']" None True]
  have "skipped (st (snd (main toy_codec photos_args photos_fs))) =
        errors (st (snd (main toy_codec photos_args photos_fs)))"
    by blast
  with e show ?thesis by simp
qed

text \<open>
  C2. Whenever \<open>optimize_directory\<close> returns (with \<open>True\<close> or with \<open>False\<close>), the sum
  of \<open>processed\<close> and \<open>errors\<close> has grown by the number of image files it discovered in
  the directory; after a run of \<open>main\<close> that exits with status 0 the sum is that
  number. The codec is assumed to reject a file of no bytes, as Pillow does.
\<close>

theorem processed_plus_errors_is_number_of_candidates:
  assumes "rejects_empty_file c"
  shows "(fst (optimize_directory c cfg dp r b od s) = Inr ok \<longrightarrow>
            processed (st (snd (optimize_directory c cfg dp r b od s))) +
            errors (st (snd (optimize_directory c cfg dp r b od s))) =
              processed (st s) + errors (st s) +
              int (length (find_image_files (fs s) (Path dp) r))) \<and>
         (fst (main c a f) = 0 \<longrightarrow>
            processed (st (snd (main c a f))) + errors (st (snd (main c a f))) =
              int (length (find_image_files f (Path (arg_directory a)) (arg_recursive a))))"
proof -
  have batch: "\<And>cfg dp r b od s ok. fst (optimize_directory c cfg dp r b od s) = Inr ok \<Longrightarrow>
            processed (st (snd (optimize_directory c cfg dp r b od s))) +
            errors (st (snd (optimize_directory c cfg dp r b od s))) =
              processed (st s) + errors (st s) +
              int (length (find_image_files (fs s) (Path dp) r))"
    using optimize_directory_count[OF assms] by blast
  have run: "fst (main c a f) = 0 \<Longrightarrow>
            processed (st (snd (main c a f))) + errors (st (snd (main c a f))) =
              int (length (find_image_files f (Path (arg_directory a)) (arg_recursive a)))"
  proof -
    assume z: "fst (main c a f) = 0"
    let ?a = "apply_max_size a"
    let ?s1 = "\<lparr>fs = f, st = initial_stats,
                 out = [Config_line (arg_directory ?a) (arg_recursive ?a)
                 (arg_quality ?a) (arg_max_width ?a) (arg_max_height ?a)
                 (arg_no_progressive ?a) (arg_backup ?a)
                 (case given_output (arg_output ?a) of None \<Rightarrow> None
                  | Some p \<Rightarrow> arg_output ?a), Rule_line]\<rparr>"
    have same: "arg_directory ?a = arg_directory a" "arg_recursive ?a = arg_recursive a"
      by (simp_all add: apply_max_size_def split: option.split)
    obtain u s2 where d: "optimize_directory c (make_optimizer ?a) (arg_directory ?a)
        (arg_recursive ?a) (arg_backup ?a) (arg_output ?a) ?s1 = (u, s2)"
      by (cases "optimize_directory c (make_optimizer ?a) (arg_directory ?a)
        (arg_recursive ?a) (arg_backup ?a) (arg_output ?a) ?s1")
    from z d have u: "u = Inr True"
      by (auto simp: main_def run_optimizer_def Let_def split: if_splits sum.splits bool.splits)
    have "processed (st s2) + errors (st s2) =
            int (length (find_image_files f (Path (arg_directory a)) (arg_recursive a)))"
      using batch[of "make_optimizer ?a" "arg_directory ?a" "arg_recursive ?a" "arg_backup ?a"
                     "arg_output ?a" ?s1 True] d u same
      by (simp add: initial_stats_def)
    then show ?thesis
      using z d u
      by (auto simp: main_def run_optimizer_def Let_def split: if_splits)
  qed
  from batch run show ?thesis by blast
qed

theorem processed_plus_errors_witness:
  "rejects_empty_file toy_codec \<and>
   fst (main toy_codec photos_args photos_fs) = 0 \<and>
   processed (st (snd (main toy_codec photos_args photos_fs))) +
   errors (st (snd (main toy_codec photos_args photos_fs))) = 3"
proof -
  have c: "rejects_empty_file toy_codec"
    by (simp add: rejects_empty_file_def toy_codec_def toy_open_def)
  have z: "fst (main toy_codec photos_args photos_fs) = 0"
    by code_simp
  have n: "length (find_image_files photos_fs (Path (arg_directory photos_args))
             (arg_recursive photos_args)) = 3"
    by code_simp
  from processed_plus_errors_is_number_of_candidates
         [OF c, of "make_optimizer photos_args" "''photos''" False False None photos_state True
             photos_args photos_fs] z n
  have "processed (st (snd (main toy_codec photos_args photos_fs))) +
        errors (st (snd (main toy_codec photos_args photos_fs))) = 3"
    by simp
  with c z show ?thesis by blast
qed

text \<open>
  C1. The original size is added to the total on line 60, before the image is opened.
  A file that cannot be decoded has therefore already been counted in
  \<open>original_size\<close> when the handler runs: for the 4-byte file \<open>c.jpg\<close>, which is not
  an image, \<open>optimize_image\<close> returns \<open>False\<close>, \<open>errors\<close> is 1 and \<open>optimized_size\<close>
  is still 0, but \<open>original_size\<close> has gone from 0 to 4.
\<close>

theorem failed_image_is_counted_in_original_size:
  "fst (optimize_image toy_codec (make_optimizer photos_args) [''photos'', ''c.jpg'']
         None False photos_state) = False \<and>
   errors (st (snd (optimize_image toy_codec (make_optimizer photos_args)
         [''photos'', ''c.jpg''] None False photos_state))) = 1 \<and>
   optimized_size (st (snd (optimize_image toy_codec (make_optimizer photos_args)
         [''photos'', ''c.jpg''] None False photos_state))) = 0 \<and>
   original_size (st photos_state) = 0 \<and>
   original_size (st (snd (optimize_image toy_codec (make_optimizer photos_args)
         [''photos'', ''c.jpg''] None False photos_state))) = 4"
  by code_simp

section \<open>The report line of one file\<close>

lemma getsize_nonneg: "getsize f p = Inr n \<Longrightarrow> 0 \<le> n"
  by (auto simp: getsize_def split: option.splits node.splits if_splits)

lemma try_success_line:
  "(case optimize_image_try c cfg p q b s of
      (Inl e, ip, s') \<Rightarrow> True
    | (Inr u, ip, s') \<Rightarrow>
        0 < original_size (st s') - original_size (st s) \<and>
        0 \<le> optimized_size (st s') - optimized_size (st s) \<and>
        out s' = out s @ [Ok_line (path_name ip)
          (original_size (st s') - original_size (st s))
          (optimized_size (st s') - optimized_size (st s))
          (reduction_percent (original_size (st s') - original_size (st s))
             (optimized_size (st s') - optimized_size (st s)))])"
  by (auto simp: optimize_image_try_def Let_def split: sum.split prod.split dest: getsize_nonneg)

lemma sign_flag_reduction:
  "0 < o' \<Longrightarrow> (sign_flag (reduction_percent o' z) = CHR ''+'') = (z \<le> o') \<and>
               (sign_flag (reduction_percent o' z) = CHR ''-'') = (o' < z)"
  by (auto simp: sign_flag_def reduction_percent_def divide_less_0_iff mult_less_0_iff zero_less_mult_iff)

text \<open>
  C3, as the claim has it: a plus sign would mean that the file grew. The code prints
  the reduction, \<open>(original - optimized) / original\<close>, so the sign is the other way
  round: \<open>a.png\<close> goes from 9 bytes to 3 and its line carries \<open>+\<close>.
\<close>

theorem positive_sign_on_a_file_that_shrank:
  "out (snd (optimize_image toy_codec (make_optimizer photos_args) [''photos'', ''a.png'']
         None False photos_state)) = [Ok_line ''a.png'' 9 3 (reduction_percent 9 3)] \<and>
   sign_flag (reduction_percent 9 3) = CHR ''+'' \<and> \<not> (9::int) < 3"
  by code_simp

text \<open>
  C3, amended. A successful call of \<open>optimize_image\<close> appends exactly one line, with
  the two sizes it added to the totals and their reduction in percent. The original
  size is positive. The sign printed is \<open>+\<close> exactly when the optimized file is not
  larger than the original (the file shrank or kept its size), and \<open>-\<close> exactly when
  the optimized file is larger.
\<close>

theorem report_sign_is_the_reduction:
  assumes "optimize_image c cfg p q b s = (True, s')"
  shows "0 < original_size (st s') - original_size (st s) \<and>
         (\<exists>nm. out s' = out s @
            [Ok_line nm (original_size (st s') - original_size (st s))
               (optimized_size (st s') - optimized_size (st s))
               (reduction_percent (original_size (st s') - original_size (st s))
                  (optimized_size (st s') - optimized_size (st s)))]) \<and>
         ((sign_flag (reduction_percent (original_size (st s') - original_size (st s))
                  (optimized_size (st s') - optimized_size (st s))) = CHR ''+'') =
            (optimized_size (st s') - optimized_size (st s)
               \<le> original_size (st s') - original_size (st s))) \<and>
         ((sign_flag (reduction_percent (original_size (st s') - original_size (st s))
                  (optimized_size (st s') - optimized_size (st s))) = CHR ''-'') =
            (original_size (st s') - original_size (st s)
               < optimized_size (st s') - optimized_size (st s)))"
proof -
  obtain r ip s1 where t: "optimize_image_try c cfg p q b s = (r, ip, s1)"
    by (cases "optimize_image_try c cfg p q b s")
  from assms t obtain u where r: "r = Inr u" and s1: "s1 = s'"
    by (cases r) (simp_all add: optimize_image_def)
  from try_success_line[where c=c and cfg=cfg and p=p and q=q and b=b and s=s] t r s1
  have pos: "0 < original_size (st s') - original_size (st s)"
    and line: "out s' = out s @
            [Ok_line (path_name ip) (original_size (st s') - original_size (st s))
               (optimized_size (st s') - optimized_size (st s))
               (reduction_percent (original_size (st s') - original_size (st s))
                  (optimized_size (st s') - optimized_size (st s)))]"
    by simp_all
  from line have ex: "\<exists>nm. out s' = out s @
            [Ok_line nm (original_size (st s') - original_size (st s))
               (optimized_size (st s') - optimized_size (st s))
               (reduction_percent (original_size (st s') - original_size (st s))
                  (optimized_size (st s') - optimized_size (st s)))]"
    by blast
  from pos ex sign_flag_reduction[OF pos, of "optimized_size (st s') - optimized_size (st s)"]
  show ?thesis by blast
qed

theorem report_sign_witness:
  "optimize_image toy_codec (make_optimizer photos_args) [''photos'', ''a.png''] None False
      photos_state =
     (True, snd (optimize_image toy_codec (make_optimizer photos_args) [''photos'', ''a.png'']
                   None False photos_state)) \<and>
   original_size (st (snd (optimize_image toy_codec (make_optimizer photos_args)
       [''photos'', ''a.png''] None False photos_state))) = 9 \<and>
   optimized_size (st (snd (optimize_image toy_codec (make_optimizer photos_args)
       [''photos'', ''a.png''] None False photos_state))) = 3 \<and>
   sign_flag (reduction_percent 9 3) = CHR ''+''"
proof -
  let ?s' = "snd (optimize_image toy_codec (make_optimizer photos_args) [''photos'', ''a.png'']
                   None False photos_state)"
  have run: "optimize_image toy_codec (make_optimizer photos_args) [''photos'', ''a.png''] None
      False photos_state = (True, ?s')"
    by code_simp
  have o: "original_size (st ?s') = 9" by code_simp
  have z: "optimized_size (st ?s') = 3" by code_simp
  have i: "original_size (st photos_state) = 0" "optimized_size (st photos_state) = 0"
    by (simp_all add: photos_state_def initial_stats_def)
  from report_sign_is_the_reduction[OF run] o z i
  have "sign_flag (reduction_percent 9 3) = CHR ''+''" by simp
  with run o z show ?thesis by blast
qed

text \<open>
  The other direction on a concrete file: two bytes become three, and the line carries
  a minus.
\<close>

lemma grown_file_is_reported_with_minus:
  "out (snd (optimize_image toy_codec (make_optimizer photos_args) [''photos'', ''t.png'']
         None False tiny_state)) = [Ok_line ''t.png'' 2 3 (reduction_percent 2 3)] \<and>
   sign_flag (reduction_percent 2 3) = CHR ''-''"
  by code_simp

section \<open>Resizing\<close>





text \<open>
  Whatever the library does, no image fits a box with a negative side: a width is a
  natural number.
\<close>

lemma no_image_fits_a_negative_box:
  "max_width cfg < 0 \<Longrightarrow> \<not> int (width img2) \<le> max_width cfg"
  by simp



section \<open>Validation of the quality\<close>

text \<open>
  Everything \<open>optimize_directory\<close> prints is appended to what was printed before,
  and without an output directory its loop cannot raise.
\<close>

lemma try_out:
  "\<exists>ys. out (snd (snd (optimize_image_try c cfg p q b s))) = out s @ ys"
  by (simp add: optimize_image_try_def Let_def split: sum.split prod.split)

lemma image_out:
  "\<exists>ys. out (snd (optimize_image c cfg p q b s)) = out s @ ys"
proof -
  obtain r ip s1 where t: "optimize_image_try c cfg p q b s = (r, ip, s1)"
    by (cases "optimize_image_try c cfg p q b s")
  from try_out[of c cfg p q b s] t obtain ys where "out s1 = out s @ ys" by auto
  with t show ?thesis by (cases r) (simp_all add: optimize_image_def)
qed

lemma mirror_output_path_out:
  "mirror_output_path d od p s = Inr (q, s1) \<Longrightarrow> out s1 = out s"
  by (auto simp: mirror_output_path_def split: option.splits sum.splits)

lemma process_files_out:
  "\<exists>ys. out (snd (process_files c cfg d od b files s)) = out s @ ys"
proof (induction files arbitrary: s)
  case Nil
  show ?case by simp
next
  case (Cons p rest)
  show ?case
  proof (cases "mirror_output_path d od p s")
    case (Inl e)
    then show ?thesis by simp
  next
    case (Inr r)
    obtain q s1 where r: "r = (q, s1)" by (cases r)
    obtain k s2 where o: "optimize_image c cfg p q b s1 = (k, s2)"
      by (cases "optimize_image c cfg p q b s1")
    from image_out[of c cfg p q b s1] o obtain ys where y: "out s2 = out s1 @ ys" by auto
    from Cons.IH[of "count_skipped k s2"] obtain zs where
      z: "out (snd (process_files c cfg d od b rest (count_skipped k s2))) =
            out (count_skipped k s2) @ zs" by blast
    have "out (count_skipped k s2) = out s2" by (simp add: count_skipped_def)
    with y z mirror_output_path_out[of d od p s q s1] Inr r o show ?thesis by simp
  qed
qed

lemma print_summary_out: "\<exists>ys. out (print_summary s) = out s @ ys"
  by (simp add: print_summary_def Let_def)

lemma optimize_directory_out:
  "\<exists>ys. out (snd (optimize_directory c cfg dp r b od s)) = out s @ ys"
proof -
  have loop: "\<And>files s1 u s2 o'. process_files c cfg (Path dp) o' b files s1 = (u, s2)
       \<Longrightarrow> \<exists>ys. out s2 = out s1 @ ys"
    using process_files_out by (metis snd_conv)
  show ?thesis
    unfolding optimize_directory_def Let_def
    by (auto simp: print_summary_def Let_def split: option.splits sum.splits prod.splits
             dest!: loop)
qed

lemma process_files_None:
  "fst (process_files c cfg d None b files s) = Inr ()"
proof (induction files arbitrary: s)
  case Nil
  show ?case by simp
next
  case (Cons p rest)
  obtain k s2 where o: "optimize_image c cfg p None b s = (k, s2)"
    by (cases "optimize_image c cfg p None b s")
  with Cons.IH[of "count_skipped k s2"] show ?case
    by (simp add: mirror_output_path_def)
qed

lemma find_image_files_exists:
  "find_image_files f d r \<noteq> [] \<Longrightarrow> path_exists f d"
  by (auto simp: find_image_files_def glob_def is_dir_def path_exists_def split: if_splits)

lemma optimize_directory_completes:
  assumes "given_output od = None" "find_image_files (fs s) (Path dp) r \<noteq> []"
  shows "fst (optimize_directory c cfg dp r b od s) = Inr True"
proof -
  have e: "path_exists (fs s) (Path dp)" using assms(2) by (rule find_image_files_exists)
  obtain u s2 where p: "process_files c cfg (Path dp) None b (find_image_files (fs s) (Path dp) r)
     (s\<lparr>out := out s @ [Found_line (length (find_image_files (fs s) (Path dp) r)), Rule_line]\<rparr>)
      = (u, s2)"
    by (cases "process_files c cfg (Path dp) None b (find_image_files (fs s) (Path dp) r)
     (s\<lparr>out := out s @ [Found_line (length (find_image_files (fs s) (Path dp) r)), Rule_line]\<rparr>)")
  from process_files_None[of c cfg "Path dp" b "find_image_files (fs s) (Path dp) r"
     "s\<lparr>out := out s @ [Found_line (length (find_image_files (fs s) (Path dp) r)), Rule_line]\<rparr>"] p
  have "u = Inr ()" by simp
  with p e assms show ?thesis
    by (simp add: optimize_directory_def Let_def)
qed

lemma optimize_directory_found:
  assumes "given_output od = None" "find_image_files (fs s) (Path dp) r \<noteq> []"
  shows "\<exists>ys. out (snd (optimize_directory c cfg dp r b od s)) =
           out s @ [Found_line (length (find_image_files (fs s) (Path dp) r)), Rule_line] @ ys"
proof -
  let ?s1 = "s\<lparr>out := out s @
               [Found_line (length (find_image_files (fs s) (Path dp) r)), Rule_line]\<rparr>"
  have e: "path_exists (fs s) (Path dp)" using assms(2) by (rule find_image_files_exists)
  obtain u s2 where p: "process_files c cfg (Path dp) None b
      (find_image_files (fs s) (Path dp) r) ?s1 = (u, s2)"
    by (cases "process_files c cfg (Path dp) None b (find_image_files (fs s) (Path dp) r) ?s1")
  from process_files_None[of c cfg "Path dp" b "find_image_files (fs s) (Path dp) r" ?s1] p
  have u: "u = Inr ()" by simp
  from process_files_out[of c cfg "Path dp" None b "find_image_files (fs s) (Path dp) r" ?s1] p
  obtain ys where ys: "out s2 = out ?s1 @ ys" by auto
  from print_summary_out[of s2] obtain zs where zs: "out (print_summary s2) = out s2 @ zs"
    by blast
  have "out (snd (optimize_directory c cfg dp r b od s)) = out (print_summary s2)"
    using p u e assms by (simp add: optimize_directory_def Let_def)
  with ys zs show ?thesis by simp
qed

text \<open>
  C7. For a quality from 1 to 100 the run goes on: the first thing printed is the
  configuration with that quality, the optimizer is built with that quality, the file
  system and the counters at the end are those that \<open>optimize_directory\<close> leaves when
  run with this optimizer after the configuration was printed, the exit status is 0
  exactly when \<open>optimize_directory\<close> returns \<open>True\<close>, and when no output directory
  is given and the directory holds an image file the run reports the number of image
  files found right after the configuration and ends with exit status 0 and the line
  of completion. For any other quality the run ends at once with exit status
  1: the file system is the one given, nothing was counted, and the only output is the
  error message.
\<close>

theorem quality_validated_before_any_processing:
  "(1 \<le> arg_quality a \<and> arg_quality a \<le> 100 \<longrightarrow>
      quality (make_optimizer (apply_max_size a)) = arg_quality a \<and>
      take 2 (out (snd (main c a f))) =
        [Config_line (arg_directory a) (arg_recursive a) (arg_quality a)
           (max_width (make_optimizer (apply_max_size a)))
           (max_height (make_optimizer (apply_max_size a)))
           (arg_no_progressive a) (arg_backup a)
           (case given_output (arg_output a) of None \<Rightarrow> None | Some p \<Rightarrow> arg_output a),
         Rule_line] \<and>
      fs (snd (main c a f)) =
        fs (snd (optimize_directory c (make_optimizer (apply_max_size a)) (arg_directory a)
                   (arg_recursive a) (arg_backup a) (arg_output a)
                   \<lparr>fs = f, st = initial_stats, out = take 2 (out (snd (main c a f)))\<rparr>)) \<and>
      st (snd (main c a f)) =
        st (snd (optimize_directory c (make_optimizer (apply_max_size a)) (arg_directory a)
                   (arg_recursive a) (arg_backup a) (arg_output a)
                   \<lparr>fs = f, st = initial_stats, out = take 2 (out (snd (main c a f)))\<rparr>)) \<and>
      butlast (out (snd (main c a f))) =
        out (snd (optimize_directory c (make_optimizer (apply_max_size a)) (arg_directory a)
                   (arg_recursive a) (arg_backup a) (arg_output a)
                   \<lparr>fs = f, st = initial_stats, out = take 2 (out (snd (main c a f)))\<rparr>)) \<and>
      (fst (main c a f) = 0) =
        (fst (optimize_directory c (make_optimizer (apply_max_size a)) (arg_directory a)
                   (arg_recursive a) (arg_backup a) (arg_output a)
                   \<lparr>fs = f, st = initial_stats, out = take 2 (out (snd (main c a f)))\<rparr>)
           = Inr True) \<and>
      (given_output (arg_output a) = None \<and>
       find_image_files f (Path (arg_directory a)) (arg_recursive a) \<noteq> [] \<longrightarrow>
         fst (main c a f) = 0 \<and> last (out (snd (main c a f))) = Completed_line \<and>
         take 2 (drop 2 (out (snd (main c a f)))) =
           [Found_line (length (find_image_files f (Path (arg_directory a))
                                  (arg_recursive a))), Rule_line])) \<and>
   (\<not> (1 \<le> arg_quality a \<and> arg_quality a \<le> 100) \<longrightarrow>
      fst (main c a f) = 1 \<and> fs (snd (main c a f)) = f \<and>
      st (snd (main c a f)) = initial_stats \<and>
      out (snd (main c a f)) = [Quality_error_line])"
proof (cases "1 \<le> arg_quality a \<and> arg_quality a \<le> 100")
  case False
  then show ?thesis by (auto simp: main_def Let_def)
next
  case True
  let ?a = "apply_max_size a"
  let ?cfg = "make_optimizer ?a"
  let ?hd = "[Config_line (arg_directory a) (arg_recursive a) (arg_quality a)
           (max_width ?cfg) (max_height ?cfg) (arg_no_progressive a) (arg_backup a)
           (case given_output (arg_output a) of None \<Rightarrow> None | Some p \<Rightarrow> arg_output a),
         Rule_line]"
  let ?s1 = "\<lparr>fs = f, st = initial_stats, out = ?hd\<rparr>"
  have same: "arg_directory ?a = arg_directory a" "arg_recursive ?a = arg_recursive a"
    "arg_quality ?a = arg_quality a" "arg_no_progressive ?a = arg_no_progressive a"
    "arg_backup ?a = arg_backup a" "arg_output ?a = arg_output a"
    by (simp_all add: apply_max_size_def split: option.split)
  have q: "quality ?cfg = arg_quality a"
    by (simp add: make_optimizer_def same)
  obtain u s2 where d: "optimize_directory c ?cfg (arg_directory a) (arg_recursive a)
      (arg_backup a) (arg_output a) ?s1 = (u, s2)"
    by (cases "optimize_directory c ?cfg (arg_directory a) (arg_recursive a)
      (arg_backup a) (arg_output a) ?s1")
  from optimize_directory_out[of c ?cfg "arg_directory a" "arg_recursive a" "arg_backup a"
         "arg_output a" ?s1] d
  obtain ys where ys: "out s2 = ?hd @ ys" by auto
  define l where "l = (case u of Inr True \<Rightarrow> Completed_line | Inr False \<Rightarrow> Not_completed_line
                        | Inl e \<Rightarrow> Unexpected_line e)"
  have m: "main c a f = ((if u = Inr True then 0 else 1), s2\<lparr>out := out s2 @ [l]\<rparr>)"
    using True d
    unfolding main_def run_optimizer_def Let_def same l_def
    by (simp add: make_optimizer_def same split: sum.split bool.split)
  have t2: "take 2 (out (snd (main c a f))) = ?hd"
    using m ys by simp
  have fin: "given_output (arg_output a) = None \<and>
       find_image_files f (Path (arg_directory a)) (arg_recursive a) \<noteq> [] \<longrightarrow>
         fst (main c a f) = 0 \<and> last (out (snd (main c a f))) = Completed_line \<and>
         take 2 (drop 2 (out (snd (main c a f)))) =
           [Found_line (length (find_image_files f (Path (arg_directory a))
                                  (arg_recursive a))), Rule_line]"
  proof (intro impI, elim conjE)
    assume n: "given_output (arg_output a) = None"
       and i: "find_image_files f (Path (arg_directory a)) (arg_recursive a) \<noteq> []"
    from optimize_directory_completes[of "arg_output a" ?s1 "arg_directory a" "arg_recursive a"
           c ?cfg "arg_backup a"] n i d
    have u: "u = Inr True" by simp
    from optimize_directory_found[of "arg_output a" ?s1 "arg_directory a" "arg_recursive a"
           c ?cfg "arg_backup a"] n i d
    obtain zs where "out s2 = ?hd @
        [Found_line (length (find_image_files f (Path (arg_directory a)) (arg_recursive a))),
         Rule_line] @ zs"
      by auto
    with m u show "fst (main c a f) = 0 \<and> last (out (snd (main c a f))) = Completed_line \<and>
         take 2 (drop 2 (out (snd (main c a f)))) =
           [Found_line (length (find_image_files f (Path (arg_directory a))
                                  (arg_recursive a))), Rule_line]"
      by (simp add: l_def)
  qed
  have rel: "fs (snd (main c a f)) =
        fs (snd (optimize_directory c ?cfg (arg_directory a) (arg_recursive a) (arg_backup a)
                   (arg_output a) ?s1)) \<and>
      st (snd (main c a f)) =
        st (snd (optimize_directory c ?cfg (arg_directory a) (arg_recursive a) (arg_backup a)
                   (arg_output a) ?s1)) \<and>
      butlast (out (snd (main c a f))) =
        out (snd (optimize_directory c ?cfg (arg_directory a) (arg_recursive a) (arg_backup a)
                   (arg_output a) ?s1)) \<and>
      (fst (main c a f) = 0) =
        (fst (optimize_directory c ?cfg (arg_directory a) (arg_recursive a) (arg_backup a)
                   (arg_output a) ?s1) = Inr True)"
    unfolding d by (simp add: m)
  show ?thesis
    unfolding t2 using True q rel fin by blast
qed

theorem quality_validated_witness:
  "(1 \<le> arg_quality photos_args \<and> arg_quality photos_args \<le> 100) \<and>
   given_output (arg_output photos_args) = None \<and>
   find_image_files photos_fs (Path (arg_directory photos_args)) (arg_recursive photos_args)
     \<noteq> [] \<and>
   fst (main toy_codec photos_args photos_fs) = 0 \<and>
   take 2 (out (snd (main toy_codec photos_args photos_fs))) =
     [Config_line ''photos'' False 85 1920 1080 False False None, Rule_line] \<and>
   last (out (snd (main toy_codec photos_args photos_fs))) = Completed_line \<and>
   take 2 (drop 2 (out (snd (main toy_codec photos_args photos_fs)))) =
     [Found_line 3, Rule_line] \<and>
   processed (st (snd (main toy_codec photos_args photos_fs))) = 2 \<and>
   \<not> (1 \<le> arg_quality (photos_args\<lparr>arg_quality := 101\<rparr>) \<and>
      arg_quality (photos_args\<lparr>arg_quality := 101\<rparr>) \<le> 100) \<and>
   fst (main toy_codec (photos_args\<lparr>arg_quality := 101\<rparr>) photos_fs) = 1 \<and>
   fs (snd (main toy_codec (photos_args\<lparr>arg_quality := 101\<rparr>) photos_fs)) = photos_fs \<and>
   out (snd (main toy_codec (photos_args\<lparr>arg_quality := 101\<rparr>) photos_fs)) =
     [Quality_error_line]"
proof -
  have r: "1 \<le> arg_quality photos_args \<and> arg_quality photos_args \<le> 100"
    by (simp add: photos_args_def default_args_def)
  have n: "given_output (arg_output photos_args) = None"
    by (simp add: photos_args_def default_args_def given_output_def)
  have k: "length (find_image_files photos_fs (Path (arg_directory photos_args))
             (arg_recursive photos_args)) = 3"
    by code_simp
  then have i: "find_image_files photos_fs (Path (arg_directory photos_args))
             (arg_recursive photos_args) \<noteq> []"
    by auto
  have v: "arg_directory photos_args = ''photos''" "arg_recursive photos_args = False"
    "arg_quality photos_args = 85" "arg_no_progressive photos_args = False"
    "arg_backup photos_args = False"
    "max_width (make_optimizer (apply_max_size photos_args)) = 1920"
    "max_height (make_optimizer (apply_max_size photos_args)) = 1080"
    by (simp_all add: photos_args_def default_args_def make_optimizer_def apply_max_size_def)
  have p: "processed (st (snd (main toy_codec photos_args photos_fs))) = 2"
    by code_simp
  from quality_validated_before_any_processing[of photos_args toy_codec photos_fs] r n i k v
  have ok: "fst (main toy_codec photos_args photos_fs) = 0 \<and>
     take 2 (out (snd (main toy_codec photos_args photos_fs))) =
       [Config_line ''photos'' False 85 1920 1080 False False None, Rule_line] \<and>
     last (out (snd (main toy_codec photos_args photos_fs))) = Completed_line \<and>
     take 2 (drop 2 (out (snd (main toy_codec photos_args photos_fs)))) =
       [Found_line 3, Rule_line]"
    by simp
  have o: "\<not> (1 \<le> arg_quality (photos_args\<lparr>arg_quality := 101\<rparr>) \<and>
      arg_quality (photos_args\<lparr>arg_quality := 101\<rparr>) \<le> 100)"
    by simp
  from quality_validated_before_any_processing
         [of "photos_args\<lparr>arg_quality := 101\<rparr>" toy_codec photos_fs] o
  have bad: "fst (main toy_codec (photos_args\<lparr>arg_quality := 101\<rparr>) photos_fs) = 1 \<and>
     fs (snd (main toy_codec (photos_args\<lparr>arg_quality := 101\<rparr>) photos_fs)) = photos_fs \<and>
     out (snd (main toy_codec (photos_args\<lparr>arg_quality := 101\<rparr>) photos_fs)) =
       [Quality_error_line]"
    by blast
  from r n i ok p o bad show ?thesis by blast
qed

section \<open>Backups and the files that one call touches\<close>


lemma write_file_getsize:
  "write_file f p c = Inr f2 \<Longrightarrow> getsize f2 p = Inr (int (length c))"
  by (auto simp: write_file_def getsize_def update_conv' split: if_splits)





lemma try_fs_failed:
  "rejects_empty_file c \<Longrightarrow>
   backup_step p (case q of None \<Rightarrow> p | Some y \<Rightarrow> y) b (fs s) = Inr (ip, f1) \<Longrightarrow>
   (case fst (optimize_image_try c cfg p q b s) of
      Inl e \<Rightarrow> fs (snd (snd (optimize_image_try c cfg p q b s))) = f1
    | Inr u \<Rightarrow> True)"
  by (auto simp: optimize_image_try_def Let_def write_file_getsize split: sum.split prod.split
           dest: open_and_encode_empty)

lemma backup_path_differs:
  assumes "backup_path_of p = Inr bp"
  shows "bp \<noteq> p \<and> with_suffix p ''.jpg'' \<noteq> Inr bp"
proof -
  let ?n = "path_name p"
  let ?old = "path_suffix p"
  from assms have ne: "?n \<noteq> []"
    by (auto simp: backup_path_of_def with_suffix_def split: if_splits)
  then have p: "p \<noteq> []" "last p = ?n" by (auto simp: path_name_def)
  define stem where "stem = (if ?old = [] then ?n else take (length ?n - length ?old) ?n)"
  have bp: "bp = butlast p @ [stem @ ''.backup'' @ ?old]"
    using assms ne by (auto simp: backup_path_of_def with_suffix_def Let_def stem_def)
  have j: "with_suffix p ''.jpg'' = Inr (butlast p @ [stem @ ''.jpg''])"
    using ne by (auto simp: with_suffix_def Let_def stem_def)
  have len: "length ?n \<le> length stem + length ?old"
    unfolding stem_def by auto
  have "length (last bp) = length stem + 7 + length ?old" by (simp add: bp)
  with len p have "last bp \<noteq> last p" by auto
  then have 1: "bp \<noteq> p" by auto
  have "stem @ ''.backup'' @ ?old \<noteq> stem @ ''.jpg''" by simp
  then have 2: "with_suffix p ''.jpg'' \<noteq> Inr bp" by (simp add: j bp)
  from 1 2 show ?thesis by simp
qed


lemma backup_step_renames:
  "backup_path_of p = Inr bp \<Longrightarrow> \<not> path_exists f bp \<Longrightarrow> map_of f p = Some (File c0) \<Longrightarrow>
   backup_step p p True f = Inr (bp, AList.update bp (File c0) (AList.delete p f))"
  by (simp add: backup_step_def rename_def)

lemma renamed_map:
  "bp \<noteq> p \<Longrightarrow>
   map_of (AList.update bp (File c0) (AList.delete p f)) x =
     (if x = bp then Some (File c0) else if x = p then None else map_of f x)"
  by (simp add: update_conv' delete_conv')





text \<open>
  C9. An in-place call with backup on a file \<open>p\<close> whose backup path \<open>bp\<close> is free
  first renames \<open>p\<close> to \<open>bp\<close>. If the call then fails (it returns \<open>False\<close>), nothing
  is at \<open>p\<close> any more, the content of the file is at \<open>bp\<close>, and every other path is
  as before: the handler does not undo the rename. The codec is assumed to reject a
  file of no bytes, as Pillow does; the save is taken to write the file or to fail
  without writing.
\<close>

theorem failed_pipeline_leaves_file_at_backup_path:
  assumes rej: "rejects_empty_file c"
      and isf: "map_of (fs s) p = Some (File c0)"
      and bp: "backup_path_of p = Inr bp"
      and nex: "\<not> path_exists (fs s) bp"
      and fail: "optimize_image c cfg p None True s = (False, s')"
  shows "map_of (fs s') p = None \<and> map_of (fs s') bp = Some (File c0) \<and>
         (x \<noteq> p \<and> x \<noteq> bp \<longrightarrow> map_of (fs s') x = map_of (fs s) x)"
proof -
  let ?f1 = "AList.update bp (File c0) (AList.delete p (fs s))"
  have st: "backup_step p (case None of None \<Rightarrow> p | Some y \<Rightarrow> y) True (fs s) = Inr (bp, ?f1)"
    using backup_step_renames[OF bp nex isf] by simp
  obtain r ip s1 where t: "optimize_image_try c cfg p None True s = (r, ip, s1)"
    by (cases "optimize_image_try c cfg p None True s")
  from fail t obtain e where r: "r = Inl e"
    by (cases r) (simp_all add: optimize_image_def)
  from try_fs_failed[OF rej st, of cfg] t r have "fs s1 = ?f1" by simp
  moreover from fail t r have "fs s' = fs s1" by (auto simp: optimize_image_def)
  ultimately have f: "fs s' = ?f1" by simp
  have ne: "bp \<noteq> p" using backup_path_differs[OF bp] by simp
  show ?thesis unfolding f using ne by (simp add: renamed_map)
qed

theorem failed_pipeline_witness:
  "rejects_empty_file toy_codec \<and>
   map_of (fs photos_state) [''photos'', ''c.jpg''] = Some (File ''Xbad'') \<and>
   backup_path_of [''photos'', ''c.jpg''] = Inr [''photos'', ''c.backup.jpg''] \<and>
   \<not> path_exists (fs photos_state) [''photos'', ''c.backup.jpg''] \<and>
   fst (optimize_image toy_codec (make_optimizer photos_args) [''photos'', ''c.jpg''] None True
          photos_state) = False \<and>
   map_of (fs (snd (optimize_image toy_codec (make_optimizer photos_args)
          [''photos'', ''c.jpg''] None True photos_state))) [''photos'', ''c.jpg''] = None \<and>
   map_of (fs (snd (optimize_image toy_codec (make_optimizer photos_args)
          [''photos'', ''c.jpg''] None True photos_state))) [''photos'', ''c.backup.jpg'']
     = Some (File ''Xbad'') \<and>
   map_of (fs (snd (optimize_image toy_codec (make_optimizer photos_args)
          [''photos'', ''c.jpg''] None True photos_state))) [''photos'', ''a.png'']
     = Some (File ''dd-pixels'')"
proof -
  let ?r = "optimize_image toy_codec (make_optimizer photos_args) [''photos'', ''c.jpg''] None
              True photos_state"
  have c: "rejects_empty_file toy_codec"
    by (simp add: rejects_empty_file_def toy_codec_def toy_open_def)
  have m: "map_of (fs photos_state) [''photos'', ''c.jpg''] = Some (File ''Xbad'')"
    by code_simp
  have b: "backup_path_of [''photos'', ''c.jpg''] = Inr [''photos'', ''c.backup.jpg'']"
    by code_simp
  have n: "\<not> path_exists (fs photos_state) [''photos'', ''c.backup.jpg'']"
    by code_simp
  have a: "map_of (fs photos_state) [''photos'', ''a.png''] = Some (File ''dd-pixels'')"
    by code_simp
  have f0: "fst ?r = False"
    by code_simp
  then have f: "?r = (False, snd ?r)"
    by (metis prod.collapse)
  from failed_pipeline_leaves_file_at_backup_path[OF c m b n f, of "[''photos'', ''a.png'']"] a
  have "map_of (fs (snd ?r)) [''photos'', ''c.jpg''] = None \<and>
        map_of (fs (snd ?r)) [''photos'', ''c.backup.jpg''] = Some (File ''Xbad'') \<and>
        map_of (fs (snd ?r)) [''photos'', ''a.png''] = Some (File ''dd-pixels'')"
    by simp
  with f0 c m b n show ?thesis by blast
qed

section \<open>Mirrored output\<close>










text \<open>
  The second half of the claim needs the two directories to be apart: with the source
  directory given as output directory the source file is overwritten.
\<close>

lemma same_root_overwrites_source:
  "map_of photos_fs [''photos'', ''a.png''] = Some (File ''dd-pixels'') \<and>
   map_of (fs (snd (main toy_codec same_root_args photos_fs))) [''photos'', ''a.png'']
     = Some (File ''ddC'')"
  by code_simp



end
